theory Spec2Isabelle
  imports Main
begin

section \<open>Python values\<close>

text \<open>
  The values \<open>json.loads\<close> produces and the program passes around. Strings are lists of
  8-bit characters, read as Python strings over the code points below 256. A float is kept
  as the text Python's \<open>repr\<close> prints for it (\<open>''1.5''\<close>, \<open>''0.0''\<close>, \<open>''nan''\<close>): the program
  only tests a float for truth and prints it. A dict is its items in insertion order, with
  distinct keys.
\<close>

datatype pyval =
    PNone
  | PBool bool
  | PInt int
  | PFloat string
  | PStr string
  | PList "pyval list"
  | PDict "(string \<times> pyval) list"

text \<open>Exceptions the modelled code can raise.\<close>

datatype pyexc =
    AttributeError
  | ValueError
  | RecursionError
  | OperationalError string

text \<open>\<open>bool(v)\<close>, the test behind \<open>or\<close>, \<open>not\<close> and \<open>if\<close>.\<close>

fun truthy :: "pyval \<Rightarrow> bool" where
  "truthy PNone = False"
| "truthy (PBool b) = b"
| "truthy (PInt i) = (i \<noteq> 0)"
| "truthy (PFloat s) = (s \<noteq> ''0.0'' \<and> s \<noteq> ''-0.0'')"
| "truthy (PStr s) = (s \<noteq> [])"
| "truthy (PList xs) = (xs \<noteq> [])"
| "truthy (PDict kvs) = (kvs \<noteq> [])"

text \<open>A nullable TEXT column as a Python value: \<open>NULL\<close> arrives as \<open>None\<close>.\<close>

fun opt_str :: "string option \<Rightarrow> pyval" where
  "opt_str None = PNone"
| "opt_str (Some s) = PStr s"

subsection \<open>Strings\<close>

text \<open>\<open>str.isspace\<close> on one character, which is what \<open>str.strip()\<close> removes.\<close>

definition is_space :: "char \<Rightarrow> bool" where
  "is_space c = (let n = (of_char c :: nat) in
     (9 \<le> n \<and> n \<le> 13) \<or> (28 \<le> n \<and> n \<le> 32) \<or> n = 133 \<or> n = 160)"

definition strip :: "string \<Rightarrow> string" where
  "strip s = rev (dropWhile is_space (rev (dropWhile is_space s)))"

text \<open>\<open>str.lower()\<close>: the ASCII capitals and the Latin-1 capitals move down by 32.\<close>

definition lower_char :: "char \<Rightarrow> char" where
  "lower_char c = (let n = (of_char c :: nat) in
     if (65 \<le> n \<and> n \<le> 90) \<or> (192 \<le> n \<and> n \<le> 222 \<and> n \<noteq> 215)
     then char_of (n + 32) else c)"

definition lower :: "string \<Rightarrow> string" where
  "lower s = map lower_char s"

text \<open>\<open>needle in hay\<close> on strings: the substring test.\<close>

fun starts_with :: "string \<Rightarrow> string \<Rightarrow> bool" where
  "starts_with [] hay = True"
| "starts_with (n # ns) [] = False"
| "starts_with (n # ns) (h # hs) = (n = h \<and> starts_with ns hs)"

fun py_in :: "string \<Rightarrow> string \<Rightarrow> bool" where
  "py_in needle [] = (needle = [])"
| "py_in needle (h # hs) = (starts_with needle (h # hs) \<or> py_in needle hs)"

text \<open>\<open>sep.join(parts)\<close>.\<close>

fun join :: "string \<Rightarrow> string list \<Rightarrow> string" where
  "join sep [] = []"
| "join sep [x] = x"
| "join sep (x # y # ys) = x @ sep @ join sep (y # ys)"

text \<open>The decimal digits of a natural number, and a number padded with zeros to a width.\<close>

fun digits :: "nat \<Rightarrow> string" where
  "digits n = (if n < 10 then [char_of (48 + n)]
               else digits (n div 10) @ [char_of (48 + n mod 10)])"

declare digits.simps [simp del]

definition zero_pad :: "nat \<Rightarrow> nat \<Rightarrow> string" where
  "zero_pad w n = replicate (w - length (digits n)) (CHR ''0'') @ digits n"

definition str_int :: "int \<Rightarrow> string" where
  "str_int i = (if i < 0 then ''-'' @ digits (nat (- i)) else digits (nat i))"

subsection \<open>\<open>repr\<close> and \<open>str\<close>\<close>

definition hex_digit :: "nat \<Rightarrow> char" where
  "hex_digit n = (if n < 10 then char_of (48 + n) else char_of (87 + n))"

definition printable :: "char \<Rightarrow> bool" where
  "printable c = (let n = (of_char c :: nat) in
     (32 \<le> n \<and> n \<le> 126) \<or> (161 \<le> n \<and> n \<noteq> 173))"

text \<open>
  \<open>repr\<close> of a string: single quotes, unless the string holds a single quote and no
  double quote; the quote and the backslash escaped; tab, newline and return by letter;
  every other character that is not printable as \<open>\xNN\<close>.
\<close>

definition quote_of :: "string \<Rightarrow> char" where
  "quote_of s = (if CHR 0x27 \<in> set s \<and> CHR 0x22 \<notin> set s then CHR 0x22 else CHR 0x27)"

definition escape_char :: "char \<Rightarrow> char \<Rightarrow> string" where
  "escape_char q c =
     (if c = CHR 0x5C then [CHR 0x5C, CHR 0x5C]
      else if c = q then [CHR 0x5C, q]
      else if c = CHR 0x09 then [CHR 0x5C, CHR ''t'']
      else if c = CHR 0x0A then [CHR 0x5C, CHR ''n'']
      else if c = CHR 0x0D then [CHR 0x5C, CHR ''r'']
      else if printable c then [c]
      else [CHR 0x5C, CHR ''x'',
            hex_digit ((of_char c :: nat) div 16), hex_digit ((of_char c :: nat) mod 16)])"

definition repr_str :: "string \<Rightarrow> string" where
  "repr_str s = (let q = quote_of s in [q] @ concat (map (escape_char q) s) @ [q])"

fun py_repr :: "pyval \<Rightarrow> string" where
  "py_repr PNone = ''None''"
| "py_repr (PBool b) = (if b then ''True'' else ''False'')"
| "py_repr (PInt i) = str_int i"
| "py_repr (PFloat s) = s"
| "py_repr (PStr s) = repr_str s"
| "py_repr (PList xs) = ''['' @ join '', '' (map py_repr xs) @ '']''"
| "py_repr (PDict kvs) =
     ''{'' @ join '', '' (map (\<lambda>(k, v). repr_str k @ '': '' @ py_repr v) kvs) @ ''}''"

text \<open>\<open>str(v)\<close>, also what an f-string field \<open>{v}\<close> prints.\<close>

fun py_str :: "pyval \<Rightarrow> string" where
  "py_str (PStr s) = s"
| "py_str v = py_repr v"

subsection \<open>Dictionary access\<close>

text \<open>
  \<open>v.get(key, default)\<close>: a lookup on a dict; every other value \<open>json.loads\<close> can return
  (list, string, number, bool, \<open>None\<close>) has no \<open>get\<close> and the call raises AttributeError.
\<close>

fun py_get :: "pyval \<Rightarrow> string \<Rightarrow> pyval \<Rightarrow> pyexc + pyval" where
  "py_get (PDict kvs) key dflt =
     Inr (case map_of kvs key of Some v \<Rightarrow> v | None \<Rightarrow> dflt)"
| "py_get v key dflt = Inl AttributeError"

text \<open>\<open>a or b\<close>: \<open>a\<close> when it is truthy, else whatever evaluating \<open>b\<close> gives.\<close>

definition or_else :: "pyval \<Rightarrow> (pyexc + pyval) \<Rightarrow> pyexc + pyval" where
  "or_else a b = (if truthy a then Inr a else b)"

text \<open>\<open>(v.get(key, default)) or rest\<close>, the link of the lookup chains.\<close>

definition get_or :: "pyval \<Rightarrow> string \<Rightarrow> pyval \<Rightarrow> (pyexc + pyval) \<Rightarrow> pyexc + pyval" where
  "get_or v key dflt rest =
     (case py_get v key dflt of Inl e \<Rightarrow> Inl e | Inr a \<Rightarrow> or_else a rest)"

subsection \<open>Rendering a timestamp\<close>

text \<open>
  \<open>datetime.fromtimestamp(timestamp / 1000).strftime('%Y-%m-%d %H:%M:%S')\<close>, with the
  process in UTC. The day count becomes a civil date; a year outside 1..9999 makes
  \<open>fromtimestamp\<close> raise.
\<close>

definition civil_from_days :: "int \<Rightarrow> int \<times> int \<times> int" where
  "civil_from_days z0 =
     (let z = z0 + 719468;
          era = z div 146097;
          doe = z - era * 146097;
          yoe = (doe - doe div 1460 + doe div 36524 - doe div 146096) div 365;
          doy = doe - (365 * yoe + yoe div 4 - yoe div 100);
          mp = (5 * doy + 2) div 153;
          d = doy - (153 * mp + 2) div 5 + 1;
          m = (if mp < 10 then mp + 3 else mp - 9);
          y = yoe + era * 400 + (if m \<le> 2 then 1 else 0)
      in (y, m, d))"

definition human_time_of :: "int \<Rightarrow> pyexc + string" where
  "human_time_of ts =
     (let secs = ts div 1000;
          days = secs div 86400;
          rem = secs mod 86400;
          (y, m, d) = civil_from_days days
      in if y < 1 \<or> 9999 < y then Inl ValueError
         else Inr (zero_pad 4 (nat y) @ ''-'' @ zero_pad 2 (nat m) @ ''-'' @ zero_pad 2 (nat d)
                   @ '' '' @ zero_pad 2 (nat (rem div 3600)) @ '':''
                   @ zero_pad 2 (nat (rem mod 3600 div 60)) @ '':''
                   @ zero_pad 2 (nat (rem mod 60))))"

section \<open>The message store\<close>

text \<open>
  A JSON column (\<open>mx_room_messages.message\<close>, \<open>users.user\<close>) is kept as what the code
  makes of it: \<open>Absent\<close> when the cell is \<open>NULL\<close> or the empty string (the code tests
  the cell for truth and does not call \<open>json.loads\<close>), \<open>Malformed\<close> when \<open>json.loads\<close>
  raises \<open>JSONDecodeError\<close> or \<open>TypeError\<close>, \<open>Raises e\<close> when it raises anything else
  (\<open>RecursionError\<close> on a deeply nested text, the plain \<open>ValueError\<close> of an integer literal
  beyond the digit limit), \<open>Json v\<close> when it returns \<open>v\<close>.
\<close>

datatype json_col = Absent | Malformed | Raises pyexc | Json pyval

text \<open>The columns the two queries read, named as the queries name them.\<close>

record mx_room_message =
  m_roomID :: string
  m_senderContactID :: "string option"
  m_message :: json_col
  m_timestamp :: int
  m_eventID :: string
  m_type :: string
  m_isSentByMe :: int
  m_isEncrypted :: int
  m_inReplyToID :: "string option"
  m_text_content :: "string option"
  m_text_formattedContent :: "string option"
  m_isDeleted :: int

record users_row =
  u_user :: json_col
  u_accountID :: "string option"

text \<open>
  \<open>users\<close> is keyed by \<open>userID\<close> and \<open>accounts\<close> by \<open>accountID\<close>, so a message joins with
  at most one user and one account.
\<close>

record db =
  mx_room_messages :: "mx_room_message list"
  users :: "(string \<times> users_row) list"
  accounts :: "(string \<times> string option) list"

text \<open>One row of a query's result: the message columns and the two joined columns.\<close>

record row =
  m :: mx_room_message
  sender_user_json :: json_col
  network_type :: "string option"

text \<open>
  \<open>LEFT JOIN users u ON m.senderContactID = u.userID
  LEFT JOIN accounts a ON u.accountID = a.accountID\<close>: a missing partner leaves the
  joined columns \<open>NULL\<close>.
\<close>

definition left_join :: "db \<Rightarrow> mx_room_message \<Rightarrow> row" where
  "left_join d msg =
     (let u = (case m_senderContactID msg of None \<Rightarrow> None
               | Some sid \<Rightarrow> map_of (users d) sid)
      in \<lparr> m = msg,
           sender_user_json = (case u of None \<Rightarrow> Absent | Some ur \<Rightarrow> u_user ur),
           network_type = (case u of None \<Rightarrow> None
                           | Some ur \<Rightarrow> (case u_accountID ur of None \<Rightarrow> None
                               | Some aid \<Rightarrow> (case map_of (accounts d) aid of None \<Rightarrow> None
                                   | Some p \<Rightarrow> p))) \<rparr>)"

definition allowed_types :: "string list" where
  "allowed_types = [''TEXT'', ''MEDIA'', ''FILE'', ''LOCATION'', ''STICKER'']"

text \<open>\<open>LIMIT ?\<close>: a negative limit is no limit.\<close>

definition sql_limit :: "int \<Rightarrow> 'a list \<Rightarrow> 'a list" where
  "sql_limit limit xs = (if limit < 0 then xs else take (nat limit) xs)"

text \<open>
  The query of \<open>get_recent_messages\<close>: \<open>WHERE m.timestamp > ? AND m.type IN (...) AND
  m.isDeleted = 0 ORDER BY m.timestamp DESC LIMIT ?\<close>. Rows of equal timestamp stay in
  table order.
\<close>

definition recent_where :: "int \<Rightarrow> mx_room_message \<Rightarrow> bool" where
  "recent_where since msg =
     (m_timestamp msg > since \<and> m_type msg \<in> set allowed_types \<and> m_isDeleted msg = 0)"

definition recent_query :: "db \<Rightarrow> int \<Rightarrow> int \<Rightarrow> row list" where
  "recent_query d since limit =
     map (left_join d)
       (sql_limit limit
          (sort_key (\<lambda>msg. - m_timestamp msg) (filter (recent_where since) (mx_room_messages d))))"

text \<open>
  The query of \<open>get_thread_messages\<close>: \<open>WHERE m.roomID = ? AND m.type IN (...) AND
  m.isDeleted = 0 ORDER BY m.timestamp ASC LIMIT ?\<close>.
\<close>

definition thread_where :: "string \<Rightarrow> mx_room_message \<Rightarrow> bool" where
  "thread_where thread_id msg =
     (m_roomID msg = thread_id \<and> m_type msg \<in> set allowed_types \<and> m_isDeleted msg = 0)"

definition thread_query :: "db \<Rightarrow> string \<Rightarrow> int \<Rightarrow> row list" where
  "thread_query d thread_id limit =
     map (left_join d)
       (sql_limit limit
          (sort_key m_timestamp (filter (thread_where thread_id) (mx_room_messages d))))"

section \<open>Decoding a row\<close>

text \<open>The message dictionary the two readers build.\<close>

record message =
  room_id :: string
  thread_id :: string
  thread_name :: string
  sender_id :: "string option"
  sender_name :: pyval
  network :: string
  "text" :: string
  timestamp :: int
  event_id :: string
  message_type :: string
  is_sent_by_me :: bool
  is_encrypted :: bool
  is_reply :: bool
  reply_to_id :: "string option"
  human_time :: string
  raw_message_data :: pyval
  raw_sender_data :: pyval

text \<open>
  \<open>message_data = json.loads(message_json) if message_json else {}\<close>, with \<open>{}\<close> again
  under \<open>except (json.JSONDecodeError, TypeError)\<close>. Any other exception of \<open>json.loads\<close>
  passes that handler and leaves the row loop.
\<close>

fun parse_message_data :: "json_col \<Rightarrow> pyexc + pyval" where
  "parse_message_data Absent = Inr (PDict [])"
| "parse_message_data Malformed = Inr (PDict [])"
| "parse_message_data (Raises e) = Inl e"
| "parse_message_data (Json v) = Inr v"

text \<open>
  \<open>text = (text_content or formatted_content or message_data.get('text', '') or
  message_data.get('body', '') or message_data.get('filename', '') or
  str(message_data) if message_data else '')\<close>. The conditional expression binds weaker
  than \<open>or\<close>: the whole chain is under \<open>if message_data\<close>.
\<close>

definition extract_text :: "string option \<Rightarrow> string option \<Rightarrow> pyval \<Rightarrow> pyexc + pyval" where
  "extract_text text_content formatted_content message_data =
     (if truthy message_data then
        or_else (opt_str text_content)
          (or_else (opt_str formatted_content)
             (get_or message_data ''text'' (PStr [])
                (get_or message_data ''body'' (PStr [])
                   (get_or message_data ''filename'' (PStr [])
                      (Inr (PStr (py_str message_data)))))))
      else Inr (PStr []))"

text \<open>
  \<open>if not text or text.strip() == "": continue\<close>. \<open>None\<close> is the \<open>continue\<close>; a truthy
  value that is no string has no \<open>strip\<close>.
\<close>

fun meaningful :: "pyval \<Rightarrow> pyexc + string option" where
  "meaningful (PStr s) = Inr (if s = [] \<or> strip s = [] then None else Some s)"
| "meaningful v = (if truthy v then Inl AttributeError else Inr None)"

text \<open>
  The sender block: \<open>sender_name\<close> and \<open>sender_data\<close> start as \<open>sender_id\<close> and \<open>{}\<close>; inside
  the \<open>try\<close>, a truthy cell is parsed and the names are looked up. The handler catches
  \<open>JSONDecodeError\<close> and \<open>TypeError\<close> and nothing else: another exception of \<open>json.loads\<close>,
  or the AttributeError of a \<open>get\<close> on a value that is no dict, leaves the row loop.
\<close>

fun parse_sender :: "string option \<Rightarrow> json_col \<Rightarrow> pyexc + (pyval \<times> pyval)" where
  "parse_sender sid Absent = Inr (opt_str sid, PDict [])"
| "parse_sender sid Malformed = Inr (opt_str sid, PDict [])"
| "parse_sender sid (Raises e) = Inl e"
| "parse_sender sid (Json sender_data) =
     (case get_or sender_data ''displayName'' PNone
             (get_or sender_data ''name'' PNone
                (get_or sender_data ''username'' PNone (Inr (opt_str sid)))) of
        Inl e \<Rightarrow> Inl e
      | Inr name \<Rightarrow> Inr (name, sender_data))"

text \<open>The network block.\<close>

definition determine_network :: "string option \<Rightarrow> string option \<Rightarrow> string" where
  "determine_network sid hint =
     (let network = (if truthy (opt_str hint) then the hint else ''unknown'') in
      if truthy (opt_str sid) then
        (if py_in ''whatsapp'' (lower (the sid)) then ''whatsapp''
         else if py_in ''telegram'' (lower (the sid)) then ''telegram''
         else if py_in ''linkedin'' (lower (the sid)) then ''linkedin''
         else if py_in ''beeper.com'' (the sid) then ''matrix''
         else if py_in ''local-whatsapp'' (the sid) then ''whatsapp''
         else network)
      else network)"

text \<open>
  \<open>_generate_thread_name\<close>: the body may raise (a truthy \<open>sender_data\<close> without \<open>get\<close>),
  and the handler then names the thread after the room id.
\<close>

definition thread_name_body :: "string \<Rightarrow> string \<Rightarrow> pyval \<Rightarrow> pyexc + string" where
  "thread_name_body rid net sender_data =
     (if net = ''whatsapp'' then
        (if truthy sender_data then
           (case get_or sender_data ''displayName'' PNone (py_get sender_data ''name'' PNone) of
              Inl e \<Rightarrow> Inl e
            | Inr contact_name \<Rightarrow>
                Inr (if truthy contact_name then ''WhatsApp: '' @ py_str contact_name
                     else ''WhatsApp Chat''))
         else Inr ''WhatsApp Chat'')
      else if net = ''telegram'' then
        Inr (if py_in ''telegram_'' rid then ''Telegram Bot/Channel'' else ''Telegram Chat'')
      else if net = ''linkedin'' then Inr ''LinkedIn Chat''
      else if net = ''matrix'' then Inr ''Matrix/Beeper Chat''
      else Inr (''Chat ('' @ take 8 rid @ ''...)''))"

definition generate_thread_name :: "string \<Rightarrow> string \<Rightarrow> pyval \<Rightarrow> string" where
  "generate_thread_name rid net sender_data =
     (case thread_name_body rid net sender_data of
        Inr name \<Rightarrow> name
      | Inl e \<Rightarrow> ''Thread ('' @ take 8 rid @ ''...)'')"

text \<open>
  The body of the row loop up to \<open>messages.append(message)\<close>. \<open>Inr None\<close> is the
  \<open>continue\<close>, \<open>Inl e\<close> an exception that leaves the loop. \<open>tid\<close> is what the reader stores
  under \<open>thread_id\<close>: the row's room id in \<open>get_recent_messages\<close>, the argument in
  \<open>get_thread_messages\<close>.
\<close>

definition decode_row :: "string \<Rightarrow> row \<Rightarrow> pyexc + message option" where
  "decode_row tid r =
     (let msg = m r in
      case parse_message_data (m_message msg) of
        Inl e \<Rightarrow> Inl e
      | Inr message_data \<Rightarrow>
     (case extract_text (m_text_content msg) (m_text_formattedContent msg) message_data of
        Inl e \<Rightarrow> Inl e
      | Inr t \<Rightarrow>
         (case meaningful t of
            Inl e \<Rightarrow> Inl e
          | Inr None \<Rightarrow> Inr None
          | Inr (Some txt) \<Rightarrow>
             (case parse_sender (m_senderContactID msg) (sender_user_json r) of
                Inl e \<Rightarrow> Inl e
              | Inr (name, sender_data) \<Rightarrow>
                 (let net = determine_network (m_senderContactID msg) (network_type r) in
                  case human_time_of (m_timestamp msg) of
                    Inl e \<Rightarrow> Inl e
                  | Inr ht \<Rightarrow>
                      Inr (Some \<lparr> room_id = m_roomID msg,
                                  thread_id = tid,
                                  thread_name = generate_thread_name (m_roomID msg) net sender_data,
                                  sender_id = m_senderContactID msg,
                                  sender_name = name,
                                  network = net,
                                  text = txt,
                                  timestamp = m_timestamp msg,
                                  event_id = m_eventID msg,
                                  message_type = m_type msg,
                                  is_sent_by_me = (m_isSentByMe msg \<noteq> 0),
                                  is_encrypted = (m_isEncrypted msg \<noteq> 0),
                                  is_reply = truthy (opt_str (m_inReplyToID msg)),
                                  reply_to_id = m_inReplyToID msg,
                                  human_time = ht,
                                  raw_message_data = message_data,
                                  raw_sender_data = sender_data \<rparr>))))))"

section \<open>The readers\<close>

text \<open>
  What \<open>sqlite3.connect\<close> and \<open>cursor.execute\<close> give a call: the database, or the
  exception one of them raises.
\<close>

type_synonym store = "pyexc + db"

text \<open>What the program prints or logs, as far as the readers and the pollers go.\<close>

datatype log_line =
    ErrorReadingDatabase pyexc
  | ErrorReadingThread pyexc
  | DatabaseNotFound string

text \<open>
  The object's fields, with the lines logged so far and the messages handed to the sink
  (\<open>send_notification\<close>, or the printed block of the stand-alone listener).
\<close>

record listener =
  db_path :: string
  last_timestamp :: int
  running :: bool
  log :: "log_line list"
  delivered :: "message list"

text \<open>
  The \<open>for row in rows\<close> loop of \<open>get_recent_messages\<close>: the list built so far and the
  watermark are threaded through; a decoded row is appended and then raises the
  watermark if its timestamp is greater; a skipped row changes nothing; an exception
  leaves the loop with what the fields hold at that moment.
\<close>

fun process_rows :: "row list \<Rightarrow> message list \<Rightarrow> int \<Rightarrow> pyexc option \<times> message list \<times> int" where
  "process_rows [] messages wm = (None, messages, wm)"
| "process_rows (r # rs) messages wm =
     (case decode_row (m_roomID (m r)) r of
        Inl e \<Rightarrow> (Some e, messages, wm)
      | Inr None \<Rightarrow> process_rows rs messages wm
      | Inr (Some msg) \<Rightarrow>
          process_rows rs (messages @ [msg])
            (if timestamp msg > wm then timestamp msg else wm))"

text \<open>
  \<open>get_recent_messages\<close>: the \<open>try\<close> body, and \<open>except Exception\<close> printing the error and
  returning the empty list. \<open>self.last_timestamp\<close> keeps what the loop had stored when an
  exception ended it.
\<close>

definition get_recent_messages :: "store \<Rightarrow> int \<Rightarrow> listener \<Rightarrow> message list \<times> listener" where
  "get_recent_messages st limit s =
     (case st of
        Inl e \<Rightarrow> ([], s\<lparr>log := log s @ [ErrorReadingDatabase e]\<rparr>)
      | Inr d \<Rightarrow>
         (case process_rows (recent_query d (last_timestamp s) limit) [] (last_timestamp s) of
            (None, messages, wm) \<Rightarrow> (messages, s\<lparr>last_timestamp := wm\<rparr>)
          | (Some e, messages, wm) \<Rightarrow>
              ([], s\<lparr>last_timestamp := wm, log := log s @ [ErrorReadingDatabase e]\<rparr>)))"

text \<open>The loop of \<open>get_thread_messages\<close>, which has no watermark.\<close>

fun thread_rows :: "string \<Rightarrow> row list \<Rightarrow> message list \<Rightarrow> pyexc + message list" where
  "thread_rows tid [] messages = Inr messages"
| "thread_rows tid (r # rs) messages =
     (case decode_row tid r of
        Inl e \<Rightarrow> Inl e
      | Inr None \<Rightarrow> thread_rows tid rs messages
      | Inr (Some msg) \<Rightarrow> thread_rows tid rs (messages @ [msg]))"

definition get_thread_messages :: "store \<Rightarrow> string \<Rightarrow> int \<Rightarrow> listener \<Rightarrow> message list \<times> listener" where
  "get_thread_messages st tid limit s =
     (case st of
        Inl e \<Rightarrow> ([], s\<lparr>log := log s @ [ErrorReadingThread e]\<rparr>)
      | Inr d \<Rightarrow>
         (case thread_rows tid (thread_query d tid limit) [] of
            Inr messages \<Rightarrow> (messages, s)
          | Inl e \<Rightarrow> ([], s\<lparr>log := log s @ [ErrorReadingThread e]\<rparr>)))"

section \<open>The pollers\<close>

text \<open>
  \<open>BeeperDatabaseListener.start_monitoring\<close>: \<open>while self.running\<close>, read with limit 50,
  hand every message over, sleep. The list holds what the store gives at each turn of
  the loop, for as many turns as \<open>running\<close> stays set; \<open>finally\<close> clears the flag.
\<close>

fun monitor_loop :: "store list \<Rightarrow> listener \<Rightarrow> listener" where
  "monitor_loop [] s = s"
| "monitor_loop (st # sts) s =
     (case get_recent_messages st 50 s of
        (messages, s') \<Rightarrow> monitor_loop sts (s'\<lparr>delivered := delivered s' @ messages\<rparr>))"

definition start_monitoring :: "store list \<Rightarrow> listener \<Rightarrow> listener" where
  "start_monitoring ticks s = (monitor_loop ticks (s\<lparr>running := True\<rparr>))\<lparr>running := False\<rparr>"

text \<open>
  \<open>SubjectiveBeeperRealTimeDataSource._cfg\<close>: the session value, else the environment
  variable, else the default.
\<close>

definition cfg :: "string option \<Rightarrow> string option \<Rightarrow> string \<Rightarrow> string" where
  "cfg session_value env_value dflt =
     (case session_value of Some v \<Rightarrow> v
      | None \<Rightarrow> (case env_value of Some v \<Rightarrow> v | None \<Rightarrow> dflt))"

text \<open>
  \<open>SubjectiveBeeperRealTimeDataSource._start_monitoring\<close>: the path is configured, a
  missing file is logged, and the \<open>return\<close> that follows stands at the level of the
  \<open>if\<close>, not inside it: the method ends there for every path, and the statements after
  it (setting \<open>running\<close>, the polling loop) are never run. \<open>ticks\<close> is what the store would
  give the loop.
\<close>

definition ds_start_monitoring ::
  "(string \<Rightarrow> bool) \<Rightarrow> string \<Rightarrow> store list \<Rightarrow> listener \<Rightarrow> listener" where
  "ds_start_monitoring path_exists configured ticks s =
     (let s1 = s\<lparr>db_path := configured\<rparr> in
      if \<not> path_exists (db_path s1) then s1\<lparr>log := log s1 @ [DatabaseNotFound (db_path s1)]\<rparr>
      else s1)"

section \<open>Example stores\<close>

text \<open>
  A message row as the store holds it, the listener right after construction (its
  watermark is the start time), and a store with the given message rows and no users.
\<close>

definition base_message :: mx_room_message where
  "base_message =
     \<lparr> m_roomID = ''!room1:beeper.local'', m_senderContactID = Some ''@alice:example.org'',
       m_message = Json (PDict [(''body'', PStr ''hello'')]), m_timestamp = 1700000001000,
       m_eventID = ''$event1'', m_type = ''TEXT'', m_isSentByMe = 0, m_isEncrypted = 0,
       m_inReplyToID = None, m_text_content = None, m_text_formattedContent = None,
       m_isDeleted = 0 \<rparr>"

definition fresh_listener :: listener where
  "fresh_listener =
     \<lparr> db_path = ''/home/user/.config/BeeperTexts/index.db'', last_timestamp = 1700000000000,
       running = False, log = [], delivered = [] \<rparr>"

definition db_of :: "mx_room_message list \<Rightarrow> db" where
  "db_of msgs = \<lparr> mx_room_messages = msgs, users = [], accounts = [] \<rparr>"

text \<open>A row whose payload is not JSON and whose \<open>text_content\<close> column holds the text.\<close>

definition malformed_with_text :: mx_room_message where
  "malformed_with_text =
     base_message\<lparr> m_message := Malformed, m_text_content := Some ''hello'' \<rparr>"

section \<open>The rules as the specification words them\<close>

text \<open>
  The default network: the platform-name hint if present, else \<open>unknown\<close>.
\<close>

definition default_network :: "string option \<Rightarrow> string" where
  "default_network hint =
     (case hint of None \<Rightarrow> ''unknown'' | Some p \<Rightarrow> if p = [] then ''unknown'' else p)"

text \<open>A case-insensitive substring test.\<close>

definition contains_ci :: "string \<Rightarrow> string \<Rightarrow> bool" where
  "contains_ci needle s = py_in (lower needle) (lower s)"

text \<open>
  The classification as the specification states it: first match wins and every test is
  case-insensitive.
\<close>

definition network_rule_claimed :: "string option \<Rightarrow> string option \<Rightarrow> string" where
  "network_rule_claimed sid hint =
     (let s = (case sid of None \<Rightarrow> [] | Some s \<Rightarrow> s) in
      if contains_ci ''whatsapp'' s then ''whatsapp''
      else if contains_ci ''telegram'' s then ''telegram''
      else if contains_ci ''linkedin'' s then ''linkedin''
      else if contains_ci ''beeper.com'' s then ''matrix''
      else if contains_ci ''local-whatsapp'' s then ''whatsapp''
      else default_network hint)"

text \<open>The same rules with the \<open>beeper.com\<close> test case-sensitive.\<close>

definition network_rule :: "string option \<Rightarrow> string option \<Rightarrow> string" where
  "network_rule sid hint =
     (let s = (case sid of None \<Rightarrow> [] | Some s \<Rightarrow> s) in
      if contains_ci ''whatsapp'' s then ''whatsapp''
      else if contains_ci ''telegram'' s then ''telegram''
      else if contains_ci ''linkedin'' s then ''linkedin''
      else if py_in ''beeper.com'' s then ''matrix''
      else if contains_ci ''local-whatsapp'' s then ''whatsapp''
      else default_network hint)"

text \<open>
  Whether one of the sender-id rules matches, and the platform name of the sender's
  account: the \<open>platformName\<close> of the account of the user with this id, if there is one.
\<close>

definition sender_rule_matches :: "string option \<Rightarrow> bool" where
  "sender_rule_matches sid =
     (let s = (case sid of None \<Rightarrow> [] | Some s \<Rightarrow> s) in
      contains_ci ''whatsapp'' s \<or> contains_ci ''telegram'' s \<or> contains_ci ''linkedin'' s
      \<or> py_in ''beeper.com'' s \<or> contains_ci ''local-whatsapp'' s)"

definition platform_of_sender :: "db \<Rightarrow> string option \<Rightarrow> string option" where
  "platform_of_sender d sid =
     (case sid of None \<Rightarrow> None
      | Some s \<Rightarrow> (case map_of (users d) s of None \<Rightarrow> None
          | Some ur \<Rightarrow> (case u_accountID ur of None \<Rightarrow> None
              | Some aid \<Rightarrow> (case map_of (accounts d) aid of None \<Rightarrow> None
                  | Some p \<Rightarrow> p))))"

text \<open>
  Thread naming as the specification states it. The sender metadata yields a key when it
  holds a truthy value under it.
\<close>

definition yields :: "(string \<times> pyval) list \<Rightarrow> string \<Rightarrow> pyval option" where
  "yields kvs key =
     (case map_of kvs key of None \<Rightarrow> None | Some v \<Rightarrow> if truthy v then Some v else None)"

definition thread_name_rule :: "string \<Rightarrow> string \<Rightarrow> (string \<times> pyval) list \<Rightarrow> string" where
  "thread_name_rule rid net kvs =
     (if net = ''whatsapp'' then
        (case yields kvs ''displayName'' of
           Some v \<Rightarrow> ''WhatsApp: '' @ py_str v
         | None \<Rightarrow> (case yields kvs ''name'' of
                      Some v \<Rightarrow> ''WhatsApp: '' @ py_str v
                    | None \<Rightarrow> ''WhatsApp Chat''))
      else if net = ''telegram'' then
        (if py_in ''telegram_'' rid then ''Telegram Bot/Channel'' else ''Telegram Chat'')
      else if net = ''linkedin'' then ''LinkedIn Chat''
      else if net = ''matrix'' then ''Matrix/Beeper Chat''
      else ''Chat ('' @ take 8 rid @ ''...)'')"

text \<open>A store whose user blob for the sender is valid JSON but a list, not an object.\<close>

definition sender_is_list :: db where
  "sender_is_list =
     \<lparr> mx_room_messages = [base_message],
       users = [(''@alice:example.org'',
                 \<lparr> u_user = Json (PList [PStr ''Alice'']), u_accountID = None \<rparr>)],
       accounts = [] \<rparr>"

text \<open>
  A message that replies to another, and a store whose sender is a user of an account on
  a platform named \<open>discord\<close>.
\<close>

definition reply_message :: mx_room_message where
  "reply_message = base_message\<lparr> m_inReplyToID := Some ''$event0'' \<rparr>"

definition discord_store :: db where
  "discord_store =
     \<lparr> mx_room_messages = [base_message\<lparr> m_senderContactID := Some ''@bob:example.org'' \<rparr>],
       users = [(''@bob:example.org'',
                 \<lparr> u_user = Json (PDict [(''displayName'', PStr ''Bob'')]),
                   u_accountID = Some ''acct1'' \<rparr>)],
       accounts = [(''acct1'', Some ''discord'')] \<rparr>"

section \<open>What a poll appends\<close>

text \<open>
  The messages the row loop of one \<open>get_recent_messages\<close> call appended to its list: the
  rows that yielded a Message before the loop ended. They are what the call returns,
  unless an exception then empties the result. \<open>appended_all\<close> collects them over the turns
  of the polling loop.
\<close>

definition appended :: "store \<Rightarrow> int \<Rightarrow> listener \<Rightarrow> message list" where
  "appended st limit s =
     (case st of
        Inl e \<Rightarrow> []
      | Inr d \<Rightarrow>
          fst (snd (process_rows (recent_query d (last_timestamp s) limit) [] (last_timestamp s))))"

fun appended_all :: "store list \<Rightarrow> listener \<Rightarrow> message list" where
  "appended_all [] s = []"
| "appended_all (st # sts) s =
     appended st 50 s @
     appended_all sts
       (case get_recent_messages st 50 s of
          (messages, s') \<Rightarrow> s'\<lparr>delivered := delivered s' @ messages\<rparr>)"

text \<open>A store whose only fresh row has an all-whitespace body.\<close>

definition blank_store :: db where
  "blank_store =
     db_of [base_message\<lparr> m_message := Json (PDict [(''body'', PStr ''   '')]),
                          m_timestamp := 1700000002000 \<rparr>]"

lemma meaningful_SomeD: "meaningful t = Inr (Some txt) \<Longrightarrow> t = PStr txt \<and> txt \<noteq> [] \<and> strip txt \<noteq> []"
  by (cases t) (auto split: if_splits)

lemma decode_row_SomeD:
  assumes "decode_row tid r = Inr (Some msg)"
  shows "text msg \<noteq> [] \<and> strip (text msg) \<noteq> []"
    and "message_type msg = m_type (m r)"
    and "timestamp msg = m_timestamp (m r)"
    and "network msg = determine_network (m_senderContactID (m r)) (network_type r)"
    and "is_reply msg = truthy (opt_str (m_inReplyToID (m r)))"
    and "reply_to_id msg = m_inReplyToID (m r)"
    and "thread_id msg = tid"
    and "room_id msg = m_roomID (m r)"
    and "event_id msg = m_eventID (m r)"
    and "sender_id msg = m_senderContactID (m r)"
  using assms
  by (auto simp: decode_row_def Let_def dest!: meaningful_SomeD split: sum.splits option.splits prod.splits)

lemma process_rows_mono: "process_rows rs acc wm = (e, out, wm') \<Longrightarrow> wm \<le> wm'"
proof (induction rs arbitrary: acc wm)
  case Nil
  then show ?case by simp
next
  case (Cons r rs)
  then show ?case
    by (fastforce split: sum.splits option.splits if_splits)
qed

lemma process_rows_from:
  "process_rows rs acc wm = (e, out, wm') \<Longrightarrow>
   \<exists>new. out = acc @ new \<and> (\<forall>msg \<in> set new. \<exists>r \<in> set rs. decode_row (m_roomID (m r)) r = Inr (Some msg))"
proof (induction rs arbitrary: acc wm)
  case Nil
  then show ?case by simp
next
  case (Cons r rs)
  show ?case
  proof (cases "decode_row (m_roomID (m r)) r")
    case (Inl a)
    with Cons.prems show ?thesis by simp
  next
    case (Inr b)
    show ?thesis
    proof (cases b)
      case None
      with Inr Cons.prems have "process_rows rs acc wm = (e, out, wm')" by simp
      from Cons.IH[OF this] show ?thesis by auto
    next
      case (Some msg)
      with Inr Cons.prems have "process_rows rs (acc @ [msg]) (if timestamp msg > wm then timestamp msg else wm) = (e, out, wm')" by simp
      from Cons.IH[OF this] obtain new where n: "out = (acc @ [msg]) @ new"
        "\<forall>x \<in> set new. \<exists>r \<in> set rs. decode_row (m_roomID (m r)) r = Inr (Some x)" by blast
      have "out = acc @ (msg # new)" using n(1) by simp
      moreover have "\<forall>x \<in> set (msg # new). \<exists>r' \<in> set (r # rs). decode_row (m_roomID (m r')) r' = Inr (Some x)"
        using n(2) Inr Some by auto
      ultimately show ?thesis by blast
    qed
  qed
qed

lemma process_rows_skipped:
  "\<forall>x \<in> set rs. decode_row (m_roomID (m x)) x = Inr None \<Longrightarrow> process_rows rs acc wm = (None, acc, wm)"
  by (induction rs) auto

lemma process_rows_first:
  "process_rows rs acc wm = (e, out, wm') \<Longrightarrow>
   (out = acc \<and> wm' = wm) \<or>
   (\<exists>pre r post. rs = pre @ r # post
      \<and> (\<forall>x \<in> set pre. decode_row (m_roomID (m x)) x = Inr None)
      \<and> m_timestamp (m r) \<le> wm')"
proof (induction rs arbitrary: acc wm)
  case Nil
  then show ?case by simp
next
  case (Cons r rs)
  show ?case
  proof (cases "decode_row (m_roomID (m r)) r")
    case (Inl a)
    with Cons.prems show ?thesis by simp
  next
    case (Inr b)
    show ?thesis
    proof (cases b)
      case None
      with Inr Cons.prems have p: "process_rows rs acc wm = (e, out, wm')" by simp
      from Cons.IH[OF p] show ?thesis
      proof
        assume "out = acc \<and> wm' = wm" then show ?thesis by simp
      next
        assume "\<exists>pre r post. rs = pre @ r # post
          \<and> (\<forall>x \<in> set pre. decode_row (m_roomID (m x)) x = Inr None) \<and> m_timestamp (m r) \<le> wm'"
        then obtain pre r' post where h: "rs = pre @ r' # post"
          "\<forall>x \<in> set pre. decode_row (m_roomID (m x)) x = Inr None" "m_timestamp (m r') \<le> wm'" by blast
        have "r # rs = (r # pre) @ r' # post" using h(1) by simp
        moreover have "\<forall>x \<in> set (r # pre). decode_row (m_roomID (m x)) x = Inr None"
          using h(2) Inr None by simp
        ultimately show ?thesis using h(3) by blast
      qed
    next
      case (Some msg)
      with Inr Cons.prems have p: "process_rows rs (acc @ [msg]) (if timestamp msg > wm then timestamp msg else wm) = (e, out, wm')" by simp
      from process_rows_mono[OF p] have "timestamp msg \<le> wm'" by (simp split: if_splits)
      moreover have "timestamp msg = m_timestamp (m r)"
        using Inr Some decode_row_SomeD(3) by blast
      ultimately have "m_timestamp (m r) \<le> wm'" by simp
      moreover have "r # rs = [] @ r # rs" by simp
      ultimately show ?thesis by (metis empty_iff list.set(1))
    qed
  qed
qed


section \<open>Substrings\<close>

lemma starts_with_iff: "starts_with n h \<longleftrightarrow> (\<exists>s. h = n @ s)"
  by (induction n h rule: starts_with.induct) auto

lemma py_in_iff: "py_in n h \<longleftrightarrow> (\<exists>p s. h = p @ n @ s)"
proof (induction h)
  case Nil
  then show ?case by auto
next
  case (Cons c cs)
  show ?case
  proof
    assume "py_in n (c # cs)"
    then consider "starts_with n (c # cs)" | "py_in n cs" by auto
    then show "\<exists>p s. c # cs = p @ n @ s"
    proof cases
      case 1
      then obtain s where "c # cs = n @ s" using starts_with_iff by blast
      then have "c # cs = [] @ n @ s" by simp
      then show ?thesis by blast
    next
      case 2
      then obtain p s where "cs = p @ n @ s" using Cons.IH by blast
      then have "c # cs = (c # p) @ n @ s" by simp
      then show ?thesis by blast
    qed
  next
    assume "\<exists>p s. c # cs = p @ n @ s"
    then obtain p s where h: "c # cs = p @ n @ s" by blast
    show "py_in n (c # cs)"
    proof (cases p)
      case Nil
      with h have "starts_with n (c # cs)" using starts_with_iff by auto
      then show ?thesis by simp
    next
      case (Cons a p')
      with h have "cs = p' @ n @ s" by simp
      then have "py_in n cs" using Cons.IH by blast
      then show ?thesis by simp
    qed
  qed
qed

lemma py_in_longer: "py_in (a @ b) h \<Longrightarrow> py_in b h"
proof -
  assume "py_in (a @ b) h"
  then obtain p s where "h = p @ (a @ b) @ s" using py_in_iff by blast
  then have "h = (p @ a) @ b @ s" by simp
  then show ?thesis using py_in_iff by blast
qed

lemma py_in_lower: "py_in n h \<Longrightarrow> py_in (lower n) (lower h)"
proof -
  assume "py_in n h"
  then obtain p s where "h = p @ n @ s" using py_in_iff by blast
  then have "lower h = lower p @ lower n @ lower s" by (simp add: lower_def)
  then show ?thesis using py_in_iff by blast
qed

lemma lower_local_whatsapp: "lower ''local-whatsapp'' = ''local-'' @ ''whatsapp''"
  by code_simp

lemma local_whatsapp_unreachable:
  assumes "py_in ''local-whatsapp'' s \<or> py_in ''local-whatsapp'' (lower s)"
  shows "py_in ''whatsapp'' (lower s)"
proof -
  from assms show ?thesis
  proof
    assume "py_in ''local-whatsapp'' s"
    then have "py_in (lower ''local-whatsapp'') (lower s)" by (rule py_in_lower)
    then have "py_in (''local-'' @ ''whatsapp'') (lower s)" by (simp only: lower_local_whatsapp)
    then show ?thesis by (rule py_in_longer)
  next
    assume "py_in ''local-whatsapp'' (lower s)"
    then have "py_in (''local-'' @ ''whatsapp'') (lower s)" by simp
    then show ?thesis by (rule py_in_longer)
  qed
qed

lemma lower_needles:
  "lower ''whatsapp'' = ''whatsapp''" "lower ''telegram'' = ''telegram''"
  "lower ''linkedin'' = ''linkedin''" "lower ''local-whatsapp'' = ''local-whatsapp''"
  by code_simp+

lemma lower_Nil: "lower [] = []"
  by (simp add: lower_def)

lemma py_in_Nil: "py_in (c # cs) [] = False"
  by simp

lemma default_network_eq:
  "(if truthy (opt_str hint) then the hint else ''unknown'') = default_network hint"
  by (cases hint) (auto simp: default_network_def)

section \<open>What the readers emit\<close>

lemma thread_rows_from:
  "thread_rows tid rs acc = Inr out \<Longrightarrow>
   \<exists>new. out = acc @ new \<and> (\<forall>msg \<in> set new. \<exists>r \<in> set rs. decode_row tid r = Inr (Some msg))"
proof (induction rs arbitrary: acc)
  case Nil
  then show ?case by simp
next
  case (Cons r rs)
  show ?case
  proof (cases "decode_row tid r")
    case (Inl a)
    with Cons.prems show ?thesis by simp
  next
    case (Inr b)
    show ?thesis
    proof (cases b)
      case None
      with Inr Cons.prems have "thread_rows tid rs acc = Inr out" by simp
      from Cons.IH[OF this] show ?thesis by auto
    next
      case (Some msg)
      with Inr Cons.prems have "thread_rows tid rs (acc @ [msg]) = Inr out" by simp
      from Cons.IH[OF this] obtain new where n: "out = (acc @ [msg]) @ new"
        "\<forall>x \<in> set new. \<exists>r \<in> set rs. decode_row tid r = Inr (Some x)" by blast
      have "out = acc @ (msg # new)" using n(1) by simp
      moreover have "\<forall>x \<in> set (msg # new). \<exists>r' \<in> set (r # rs). decode_row tid r' = Inr (Some x)"
        using n(2) Inr Some by auto
      ultimately show ?thesis by blast
    qed
  qed
qed

lemma set_sql_limit: "set (sql_limit limit xs) \<subseteq> set xs"
proof (cases "limit < 0")
  case True
  then show ?thesis by (simp add: sql_limit_def)
next
  case False
  then show ?thesis using set_take_subset [of "nat limit" xs] by (simp add: sql_limit_def)
qed

lemma m_left_join: "m (left_join d x) = x"
  by (simp add: left_join_def Let_def)

lemma recent_query_rows:
  assumes "r \<in> set (recent_query d since limit)"
  shows "\<exists>x \<in> set (mx_room_messages d). r = left_join d x \<and> recent_where since x"
proof -
  let ?S = "sort_key (\<lambda>msg. - m_timestamp msg) (filter (recent_where since) (mx_room_messages d))"
  from assms have "r \<in> left_join d ` set (sql_limit limit ?S)"
    unfolding recent_query_def by (simp only: set_map)
  then obtain x where x: "r = left_join d x" "x \<in> set (sql_limit limit ?S)"
    by (rule imageE)
  have "x \<in> set ?S" by (rule subsetD [OF set_sql_limit x(2)])
  then have "x \<in> set (filter (recent_where since) (mx_room_messages d))"
    by (simp only: set_sort)
  then have "x \<in> set (mx_room_messages d)" "recent_where since x"
    by simp_all
  with x(1) show ?thesis by (intro bexI [of _ x] conjI)
qed

lemma thread_query_rows:
  assumes "r \<in> set (thread_query d tid limit)"
  shows "\<exists>x \<in> set (mx_room_messages d). r = left_join d x \<and> thread_where tid x"
proof -
  let ?S = "sort_key m_timestamp (filter (thread_where tid) (mx_room_messages d))"
  from assms have "r \<in> left_join d ` set (sql_limit limit ?S)"
    unfolding thread_query_def by (simp only: set_map)
  then obtain x where x: "r = left_join d x" "x \<in> set (sql_limit limit ?S)"
    by (rule imageE)
  have "x \<in> set ?S" by (rule subsetD [OF set_sql_limit x(2)])
  then have "x \<in> set (filter (thread_where tid) (mx_room_messages d))"
    by (simp only: set_sort)
  then have "x \<in> set (mx_room_messages d)" "thread_where tid x"
    by simp_all
  with x(1) show ?thesis by (intro bexI [of _ x] conjI)
qed

lemma get_recent_messages_Inl:
  "get_recent_messages (Inl e) limit s = ([], s\<lparr>log := log s @ [ErrorReadingDatabase e]\<rparr>)"
  by (simp add: get_recent_messages_def)

lemma get_recent_messages_Inr:
  assumes "process_rows (recent_query d (last_timestamp s) limit) [] (last_timestamp s) = (e, out, wm)"
  shows "get_recent_messages (Inr d) limit s =
     (case e of None \<Rightarrow> (out, s\<lparr>last_timestamp := wm\<rparr>)
      | Some ex \<Rightarrow> ([], s\<lparr>last_timestamp := wm, log := log s @ [ErrorReadingDatabase ex]\<rparr>))"
  using assms by (cases e) (simp_all add: get_recent_messages_def)

lemma get_thread_messages_Inl:
  "get_thread_messages (Inl e) tid limit s = ([], s\<lparr>log := log s @ [ErrorReadingThread e]\<rparr>)"
  by (simp add: get_thread_messages_def)

lemma get_thread_messages_Inr:
  "get_thread_messages (Inr d) tid limit s =
     (case thread_rows tid (thread_query d tid limit) [] of
        Inr messages \<Rightarrow> (messages, s)
      | Inl e \<Rightarrow> ([], s\<lparr>log := log s @ [ErrorReadingThread e]\<rparr>))"
  by (simp add: get_thread_messages_def)

lemma recent_emitted:
  assumes "msg \<in> set (fst (get_recent_messages st limit s))"
  shows "\<exists>d x. st = Inr d \<and> x \<in> set (mx_room_messages d) \<and> recent_where (last_timestamp s) x
           \<and> decode_row (m_roomID x) (left_join d x) = Inr (Some msg)"
proof (cases st)
  case (Inl e)
  with assms show ?thesis by (simp add: get_recent_messages_Inl)
next
  case (Inr d)
  obtain e out wm where p: "process_rows (recent_query d (last_timestamp s) limit) [] (last_timestamp s) = (e, out, wm)"
    by (rule prod_cases3)
  have "fst (get_recent_messages (Inr d) limit s) = (case e of None \<Rightarrow> out | Some ex \<Rightarrow> [])"
    by (cases e) (simp_all add: get_recent_messages_Inr [OF p])
  with assms Inr have mem: "msg \<in> set out"
    by (cases e) simp_all
  from process_rows_from [OF p] obtain new where new: "out = [] @ new"
    "\<forall>y \<in> set new. \<exists>r \<in> set (recent_query d (last_timestamp s) limit). decode_row (m_roomID (m r)) r = Inr (Some y)"
    by (elim exE conjE)
  from new(1) mem have "msg \<in> set new" by simp
  with new(2) have "\<exists>r \<in> set (recent_query d (last_timestamp s) limit). decode_row (m_roomID (m r)) r = Inr (Some msg)"
    by (rule bspec)
  then obtain r where r: "r \<in> set (recent_query d (last_timestamp s) limit)"
    "decode_row (m_roomID (m r)) r = Inr (Some msg)" by (elim bexE)
  from recent_query_rows [OF r(1)] obtain x where x:
    "x \<in> set (mx_room_messages d)" "r = left_join d x" "recent_where (last_timestamp s) x"
    by (elim bexE conjE)
  from r(2) x(2) have "decode_row (m_roomID x) (left_join d x) = Inr (Some msg)"
    by (simp add: m_left_join)
  with Inr x(1) x(3) show ?thesis by (intro exI [of _ d] exI [of _ x] conjI)
qed

lemma thread_emitted:
  assumes "msg \<in> set (fst (get_thread_messages st tid limit s))"
  shows "\<exists>d x. st = Inr d \<and> x \<in> set (mx_room_messages d) \<and> thread_where tid x
           \<and> decode_row tid (left_join d x) = Inr (Some msg)"
proof (cases st)
  case (Inl e)
  with assms show ?thesis by (simp add: get_thread_messages_Inl)
next
  case (Inr d)
  show ?thesis
  proof (cases "thread_rows tid (thread_query d tid limit) []")
    case (Inl e)
    with assms Inr show ?thesis by (simp add: get_thread_messages_Inr)
  next
    case out: (Inr out)
    with assms Inr have mem: "msg \<in> set out" by (simp add: get_thread_messages_Inr)
    from thread_rows_from [OF out] obtain new where new: "out = [] @ new"
      "\<forall>y \<in> set new. \<exists>r \<in> set (thread_query d tid limit). decode_row tid r = Inr (Some y)"
      by (elim exE conjE)
    from new(1) mem have "msg \<in> set new" by simp
    with new(2) have "\<exists>r \<in> set (thread_query d tid limit). decode_row tid r = Inr (Some msg)"
      by (rule bspec)
    then obtain r where r: "r \<in> set (thread_query d tid limit)"
      "decode_row tid r = Inr (Some msg)" by (elim bexE)
    from thread_query_rows [OF r(1)] obtain x where x:
      "x \<in> set (mx_room_messages d)" "r = left_join d x" "thread_where tid x"
      by (elim bexE conjE)
    from r(2) x(2) have "decode_row tid (left_join d x) = Inr (Some msg)" by simp
    with Inr x(1) x(3) show ?thesis by (intro exI [of _ d] exI [of _ x] conjI)
  qed
qed

lemma truthy_opt_str: "truthy (opt_str v) = (v \<noteq> None \<and> v \<noteq> Some [])"
  by (cases v) simp_all

lemma network_type_left_join:
  "network_type (left_join d x) = platform_of_sender d (m_senderContactID x)"
  by (simp add: left_join_def platform_of_sender_def Let_def split: option.splits)

lemma no_rule_default:
  assumes "\<not> sender_rule_matches sid"
  shows "determine_network sid hint = default_network hint"
proof (cases sid)
  case None
  then show ?thesis by (simp add: determine_network_def default_network_eq)
next
  case (Some s)
  from assms Some have no: "\<not> py_in ''whatsapp'' (lower s)" "\<not> py_in ''telegram'' (lower s)"
    "\<not> py_in ''linkedin'' (lower s)" "\<not> py_in ''beeper.com'' s"
    by (simp_all add: sender_rule_matches_def contains_ci_def lower_needles)
  from no(1) have "\<not> py_in ''local-whatsapp'' s" using local_whatsapp_unreachable by blast
  with no show ?thesis by (simp add: determine_network_def Let_def default_network_eq Some)
qed

lemma rule_fixed_network:
  assumes "sender_rule_matches sid"
  shows "determine_network sid hint \<in> {''whatsapp'', ''telegram'', ''linkedin'', ''matrix''}"
proof (cases sid)
  case None
  with assms show ?thesis by (simp add: sender_rule_matches_def contains_ci_def lower_Nil lower_needles)
next
  case (Some s)
  show ?thesis
  proof (cases "s = []")
    case True
    with assms Some show ?thesis by (simp add: sender_rule_matches_def contains_ci_def lower_Nil lower_needles)
  next
    case False
    from assms Some have "py_in ''whatsapp'' (lower s) \<or> py_in ''telegram'' (lower s)
        \<or> py_in ''linkedin'' (lower s) \<or> py_in ''beeper.com'' s
        \<or> py_in ''local-whatsapp'' (lower s)"
      by (simp add: sender_rule_matches_def contains_ci_def lower_needles)
    then have "py_in ''whatsapp'' (lower s) \<or> py_in ''telegram'' (lower s)
        \<or> py_in ''linkedin'' (lower s) \<or> py_in ''beeper.com'' s"
      using local_whatsapp_unreachable by blast
    with False Some show ?thesis by (auto simp: determine_network_def Let_def)
  qed
qed

lemma determine_network_cases:
  "determine_network sid hint \<in> {''whatsapp'', ''telegram'', ''linkedin'', ''matrix'', ''unknown''}
   \<or> (\<not> sender_rule_matches sid \<and> hint = Some (determine_network sid hint))"
proof (cases "sender_rule_matches sid")
  case True
  from rule_fixed_network [OF this, of hint] show ?thesis by auto
next
  case False
  from no_rule_default [OF this] have d: "determine_network sid hint = default_network hint" .
  show ?thesis
  proof (cases hint)
    case None
    with d show ?thesis by (simp add: default_network_def)
  next
    case (Some p)
    with d False show ?thesis by (cases "p = []") (simp_all add: default_network_def)
  qed
qed

lemma emitted_cases:
  assumes "msg \<in> set (fst (get_recent_messages st limit s))
           \<or> msg \<in> set (fst (get_thread_messages st tid limit s))"
  shows "\<exists>d x t. st = Inr d \<and> x \<in> set (mx_room_messages d) \<and> m_type x \<in> set allowed_types
           \<and> decode_row t (left_join d x) = Inr (Some msg)"
  using assms
proof
  assume "msg \<in> set (fst (get_recent_messages st limit s))"
  from recent_emitted [OF this] obtain d x where h: "st = Inr d" "x \<in> set (mx_room_messages d)"
    "recent_where (last_timestamp s) x" "decode_row (m_roomID x) (left_join d x) = Inr (Some msg)"
    by (elim exE conjE)
  from h(3) have "m_type x \<in> set allowed_types" by (simp add: recent_where_def)
  with h show ?thesis by (intro exI [of _ d] exI [of _ x] exI [of _ "m_roomID x"] conjI)
next
  assume "msg \<in> set (fst (get_thread_messages st tid limit s))"
  from thread_emitted [OF this] obtain d x where h: "st = Inr d" "x \<in> set (mx_room_messages d)"
    "thread_where tid x" "decode_row tid (left_join d x) = Inr (Some msg)"
    by (elim exE conjE)
  from h(3) have "m_type x \<in> set allowed_types" by (simp add: thread_where_def)
  with h show ?thesis by (intro exI [of _ d] exI [of _ x] exI [of _ tid] conjI)
qed

section \<open>Query order and the watermark\<close>

lemma sql_limit_prefix: "\<exists>rest. xs = sql_limit limit xs @ rest"
proof (cases "limit < 0")
  case True
  then show ?thesis by (simp add: sql_limit_def)
next
  case False
  have "xs = take (nat limit) xs @ drop (nat limit) xs" by simp
  with False show ?thesis unfolding sql_limit_def by (simp only: if_False) (rule exI)
qed

lemma recent_where_mono:
  "wm \<le> wm' \<Longrightarrow> recent_where wm' x \<Longrightarrow> recent_where wm x"
  by (simp add: recent_where_def)

lemma sorted_map_after:
  assumes "sorted (map f (xs @ y # zs))" and "z \<in> set zs"
  shows "f y \<le> f z"
proof -
  from assms(1) have "sorted (map f xs @ f y # map f zs)" by simp
  then have "sorted (f y # map f zs)" by (simp only: sorted_append)
  then have "\<forall>v \<in> set (map f zs). f y \<le> v" by simp
  moreover from assms(2) have "f z \<in> set (map f zs)" by simp
  ultimately show ?thesis by (rule bspec)
qed

lemma later_rows_in_prefix:
  assumes rs: "recent_query d wm limit = pre @ r # post"
    and le: "wm \<le> wm'"
    and r: "m_timestamp (m r) \<le> wm'"
    and y: "y \<in> set (recent_query d wm' limit')"
  shows "y \<in> set pre"
proof -
  let ?f = "\<lambda>msg. - m_timestamp msg"
  let ?S = "sort_key ?f (filter (recent_where wm) (mx_room_messages d))"
  from rs have "map (left_join d) (sql_limit limit ?S) = pre @ r # post"
    by (simp only: recent_query_def)
  then have "\<exists>us vs. sql_limit limit ?S = us @ vs \<and> pre = map (left_join d) us
      \<and> r # post = map (left_join d) vs"
    by (simp only: map_eq_append_conv)
  then obtain pre0 rest0 where L: "sql_limit limit ?S = pre0 @ rest0"
    "pre = map (left_join d) pre0" "r # post = map (left_join d) rest0"
    by (elim exE conjE)
  from L(3) have "\<exists>z zs. rest0 = z # zs \<and> r = left_join d z \<and> post = map (left_join d) zs"
    by (simp only: Cons_eq_map_conv)
  then obtain r0 post0 where R: "rest0 = r0 # post0" "r = left_join d r0"
    by (elim exE conjE)
  from sql_limit_prefix [of ?S limit] obtain rest where "?S = sql_limit limit ?S @ rest"
    by (rule exE)
  with L(1) R(1) have S: "?S = pre0 @ r0 # (post0 @ rest)" by simp
  have "sorted (map ?f ?S)" by (rule sorted_sort_key)
  with S have "sorted (map ?f (pre0 @ r0 # (post0 @ rest)))" by simp
  then have after: "\<And>z. z \<in> set (post0 @ rest) \<Longrightarrow> m_timestamp z \<le> m_timestamp r0"
    using sorted_map_after [of ?f pre0 r0 "post0 @ rest"] by simp
  from R(2) have mr: "m r = r0" using m_left_join [of d r0] by simp
  from recent_query_rows [OF y] obtain x where x: "x \<in> set (mx_room_messages d)"
    "y = left_join d x" "recent_where wm' x" by (elim bexE conjE)
  from x(3) have tx: "wm' < m_timestamp x" by (simp add: recent_where_def)
  from recent_where_mono [OF le x(3)] x(1) have "x \<in> set (filter (recent_where wm) (mx_room_messages d))"
    by simp
  then have "x \<in> set ?S" by (simp only: set_sort)
  with S have "x \<in> set (pre0 @ r0 # (post0 @ rest))" by simp
  then have "x \<in> set pre0 \<or> x = r0 \<or> x \<in> set (post0 @ rest)" by auto
  moreover have "x \<noteq> r0" using tx r mr by auto
  moreover have "x \<notin> set (post0 @ rest)"
  proof
    assume "x \<in> set (post0 @ rest)"
    then have "m_timestamp x \<le> m_timestamp r0" by (rule after)
    with tx r mr show False by simp
  qed
  ultimately have "x \<in> set pre0" by simp
  then have "left_join d x \<in> left_join d ` set pre0" by (rule imageI)
  with x(2) L(2) show ?thesis by (simp only: set_map)
qed

lemma Max_insert_insert:
  "finite (S :: int set) \<Longrightarrow> Max (insert a (insert b S)) = Max (insert (max a b) S)"
proof (cases "S = {}")
  case True
  then show ?thesis by simp
next
  case False
  assume "finite S"
  with False show ?thesis by (simp add: max.assoc)
qed

lemma Max_insert_Max:
  assumes "finite (A :: int set)" "finite B"
  shows "Max (insert (Max (insert a A)) B) = Max (insert a (A \<union> B))"
proof (cases "B = {}")
  case True
  then show ?thesis by simp
next
  case False
  have "Max (insert a (A \<union> B)) = Max (insert a A \<union> B)" by simp
  also have "\<dots> = max (Max (insert a A)) (Max B)"
    using assms False by (intro Max_Un) simp_all
  also have "\<dots> = Max (insert (Max (insert a A)) B)"
    using assms False by simp
  finally show ?thesis by simp
qed

lemma process_rows_watermark:
  "process_rows rs acc wm = (e, out, wm') \<Longrightarrow>
   \<exists>new. out = acc @ new \<and> wm' = Max (insert wm (timestamp ` set new))"
proof (induction rs arbitrary: acc wm)
  case Nil
  then show ?case by simp
next
  case (Cons r rs)
  show ?case
  proof (cases "decode_row (m_roomID (m r)) r")
    case (Inl a)
    with Cons.prems show ?thesis by simp
  next
    case (Inr b)
    show ?thesis
    proof (cases b)
      case None
      with Inr Cons.prems have "process_rows rs acc wm = (e, out, wm')" by simp
      from Cons.IH [OF this] show ?thesis .
    next
      case (Some msg)
      have mx: "(if timestamp msg > wm then timestamp msg else wm) = max wm (timestamp msg)"
        by (simp add: max_def)
      from Some Inr Cons.prems
      have "process_rows rs (acc @ [msg]) (if timestamp msg > wm then timestamp msg else wm) = (e, out, wm')"
        by simp
      then have "process_rows rs (acc @ [msg]) (max wm (timestamp msg)) = (e, out, wm')"
        by (simp only: mx)
      from Cons.IH [OF this] obtain new where n: "out = (acc @ [msg]) @ new"
        "wm' = Max (insert (max wm (timestamp msg)) (timestamp ` set new))" by (elim exE conjE)
      have "out = acc @ (msg # new)" using n(1) by simp
      moreover have "wm' = Max (insert wm (timestamp ` set (msg # new)))"
        using n(2) Max_insert_insert [of "timestamp ` set new" wm "timestamp msg"] by simp
      ultimately show ?thesis by (intro exI [of _ "msg # new"] conjI)
    qed
  qed
qed

lemma last_timestamp_after:
  assumes "process_rows (recent_query d (last_timestamp s) limit) [] (last_timestamp s) = (e, out, wm)"
  shows "last_timestamp (snd (get_recent_messages (Inr d) limit s)) = wm"
  unfolding get_recent_messages_Inr [OF assms] by (cases e) simp_all

lemma fst_recent_after:
  assumes "process_rows (recent_query d (last_timestamp s) limit) [] (last_timestamp s) = (e, out, wm)"
  shows "fst (get_recent_messages (Inr d) limit s) = (case e of None \<Rightarrow> out | Some ex \<Rightarrow> [])"
  unfolding get_recent_messages_Inr [OF assms] by (cases e) simp_all

lemma watermark_one_call:
  "last_timestamp (snd (get_recent_messages st limit s))
     = Max (insert (last_timestamp s) (timestamp ` set (appended st limit s)))"
proof (cases st)
  case (Inl e)
  then show ?thesis by (simp add: get_recent_messages_Inl appended_def)
next
  case (Inr d)
  obtain e out wm where p:
    "process_rows (recent_query d (last_timestamp s) limit) [] (last_timestamp s) = (e, out, wm)"
    by (rule prod_cases3)
  from process_rows_watermark [OF p] obtain new where n: "out = [] @ new"
    "wm = Max (insert (last_timestamp s) (timestamp ` set new))" by (elim exE conjE)
  have "appended st limit s = out" by (simp add: appended_def Inr p)
  with n have "wm = Max (insert (last_timestamp s) (timestamp ` set (appended st limit s)))"
    by simp
  with last_timestamp_after [OF p] Inr show ?thesis by simp
qed

lemma watermark_all:
  "last_timestamp (monitor_loop ticks s)
     = Max (insert (last_timestamp s) (timestamp ` set (appended_all ticks s)))"
proof (induction ticks arbitrary: s)
  case Nil
  then show ?case by simp
next
  case (Cons st sts)
  obtain messages s' where g: "get_recent_messages st 50 s = (messages, s')"
    by (rule prod.exhaust)
  let ?s1 = "s'\<lparr>delivered := delivered s' @ messages\<rparr>"
  have l1: "last_timestamp ?s1 = Max (insert (last_timestamp s) (timestamp ` set (appended st 50 s)))"
    using watermark_one_call [of st 50 s] g by simp
  have "last_timestamp (monitor_loop (st # sts) s) = last_timestamp (monitor_loop sts ?s1)"
    by (simp add: g)
  also have "\<dots> = Max (insert (last_timestamp ?s1) (timestamp ` set (appended_all sts ?s1)))"
    by (rule Cons.IH)
  also have "\<dots> = Max (insert (last_timestamp s)
      (timestamp ` set (appended st 50 s) \<union> timestamp ` set (appended_all sts ?s1)))"
    unfolding l1 by (rule Max_insert_Max) simp_all
  also have "timestamp ` set (appended st 50 s) \<union> timestamp ` set (appended_all sts ?s1)
      = timestamp ` set (appended_all (st # sts) s)"
    by (simp add: g image_Un)
  finally show ?case .
qed

section \<open>Text extraction on a malformed payload\<close>

text \<open>
  Claim C1. A row whose payload blob is malformed and whose pre-extracted plain-text field
  is non-empty should decode to a Message carrying that field. The code does not: the
  malformed payload becomes the empty mapping, the conditional \<open>... if message_data else ''\<close>
  spans the whole \<open>or\<close> chain, the text is the empty string and the row is skipped, so the
  reader returns no message for it.
\<close>

theorem malformed_payload_with_text_is_dropped:
  "parse_message_data Malformed = Inr (PDict [])
   \<and> extract_text (Some ''hello'') None (PDict []) = Inr (PStr [])
   \<and> decode_row ''!room1:beeper.local''
        (left_join (db_of [malformed_with_text]) malformed_with_text) = Inr None
   \<and> get_recent_messages (Inr (db_of [malformed_with_text])) 50 fresh_listener
        = ([], fresh_listener)"
  by code_simp

section \<open>Starting the poller\<close>

text \<open>
  Claim C2. With the store file present, starting should set the poller running and poll.
  \<open>_start_monitoring\<close> of the data source returns right after the existence test for every
  path: on a present file it leaves the object as it was (not running, nothing delivered),
  while the stand-alone listener's loop delivers the waiting message from the same store.
\<close>

theorem ds_start_monitoring_never_polls:
  "ds_start_monitoring (\<lambda>p. True) ''/home/user/.config/BeeperTexts/index.db''
       [Inr (db_of [base_message])] fresh_listener = fresh_listener
   \<and> map text (delivered (start_monitoring [Inr (db_of [base_message])] fresh_listener))
        = [''hello'']"
  by code_simp

section \<open>Network classification\<close>

text \<open>
  Claim C5 (as amended). The classification is a function of the sender id and the
  platform-name hint, first match wins: the default is the hint if present, else
  \<open>unknown\<close>; a sender id containing \<open>whatsapp\<close>, \<open>telegram\<close> or \<open>linkedin\<close> in any letter case
  gives that network; else one containing \<open>beeper.com\<close> in exactly this case gives
  \<open>matrix\<close>; else \<open>local-whatsapp\<close> gives \<open>whatsapp\<close>; else the default is kept. The sender id
  \<open>local-whatsapp-123\<close> classifies as \<open>whatsapp\<close>.
\<close>

theorem determine_network_rule:
  "determine_network sid hint = network_rule sid hint
   \<and> determine_network (Some ''local-whatsapp-123'') hint = ''whatsapp''"
proof
  show "determine_network sid hint = network_rule sid hint"
  proof (cases sid)
    case None
    then show ?thesis
      by (simp add: determine_network_def network_rule_def contains_ci_def lower_needles
          lower_Nil default_network_eq)
  next
    case (Some s)
    have unreach: "py_in ''local-whatsapp'' s \<Longrightarrow> py_in ''whatsapp'' (lower s)"
      "py_in ''local-whatsapp'' (lower s) \<Longrightarrow> py_in ''whatsapp'' (lower s)"
      using local_whatsapp_unreachable by blast+
    show ?thesis
    proof (cases "s = []")
      case True
      with Some show ?thesis
        by (simp add: determine_network_def network_rule_def contains_ci_def lower_needles
            lower_Nil default_network_eq)
    next
      case False
      with Some unreach show ?thesis
        by (auto simp: determine_network_def network_rule_def contains_ci_def lower_needles
            default_network_eq Let_def)
    qed
  qed
next
  show "determine_network (Some ''local-whatsapp-123'') hint = ''whatsapp''"
  proof -
    have "py_in ''whatsapp'' (lower ''local-whatsapp-123'')" by code_simp
    then show ?thesis by (simp add: determine_network_def)
  qed
qed

text \<open>
  Claim C5 as stated has the \<open>beeper.com\<close> test case-insensitive: a sender id on
  \<open>Beeper.COM\<close> would be \<open>matrix\<close>, and the code keeps the default.
\<close>

theorem determine_network_beeper_case_counterexample:
  "determine_network (Some ''@bob:Beeper.COM'') None = ''unknown''
   \<and> network_rule_claimed (Some ''@bob:Beeper.COM'') None = ''matrix''"
  by code_simp

theorem determine_network_rule_witness:
  "determine_network (Some ''@bob:beeper.com'') (Some ''slack'') = ''matrix''
   \<and> determine_network (Some ''@bob:Beeper.COM'') (Some ''slack'') = ''slack''
   \<and> determine_network (Some ''local-whatsapp-123'') None = ''whatsapp''"
proof -
  have a: "network_rule (Some ''@bob:beeper.com'') (Some ''slack'') = ''matrix''" by code_simp
  have b: "network_rule (Some ''@bob:Beeper.COM'') (Some ''slack'') = ''slack''" by code_simp
  show ?thesis using determine_network_rule [of "Some ''@bob:beeper.com''" "Some ''slack''"]
      determine_network_rule [of "Some ''@bob:Beeper.COM''" "Some ''slack''" ] determine_network_rule [of None None] a b by simp
qed

section \<open>Thread naming\<close>

text \<open>
  Claim C8. For sender metadata that is a mapping, the thread name follows the per-network
  rules: for whatsapp \<open>WhatsApp: {name}\<close> when the metadata yields a displayName or a name,
  else \<open>WhatsApp Chat\<close>; for telegram \<open>Telegram Bot/Channel\<close> if the room id contains
  \<open>telegram_\<close>, else \<open>Telegram Chat\<close>; \<open>LinkedIn Chat\<close>; \<open>Matrix/Beeper Chat\<close>; otherwise
  \<open>Chat (\<close>first 8 characters of the room id\<open>...)\<close>. Room id \<open>telegram_news_42\<close> on telegram
  gives \<open>Telegram Bot/Channel\<close> and \<open>abc123\<close> gives \<open>Telegram Chat\<close>.
\<close>

theorem generate_thread_name_rule:
  "generate_thread_name rid net (PDict kvs) = thread_name_rule rid net kvs
   \<and> generate_thread_name ''telegram_news_42'' ''telegram'' (PDict kvs) = ''Telegram Bot/Channel''
   \<and> generate_thread_name ''abc123'' ''telegram'' (PDict kvs) = ''Telegram Chat''"
proof (intro conjI)
  show "generate_thread_name rid net (PDict kvs) = thread_name_rule rid net kvs"
    by (cases kvs)
      (auto simp: generate_thread_name_def thread_name_body_def thread_name_rule_def yields_def
        get_or_def or_else_def split: option.splits)
  have a: "py_in ''telegram_'' ''telegram_news_42''" by code_simp
  have b: "\<not> py_in ''telegram_'' ''abc123''" by code_simp
  show "generate_thread_name ''telegram_news_42'' ''telegram'' (PDict kvs) = ''Telegram Bot/Channel''"
    using a by (simp add: generate_thread_name_def thread_name_body_def)
  show "generate_thread_name ''abc123'' ''telegram'' (PDict kvs) = ''Telegram Chat''"
    using b by (simp add: generate_thread_name_def thread_name_body_def)
qed

theorem generate_thread_name_rule_witness:
  "generate_thread_name ''!r:b'' ''whatsapp'' (PDict [(''displayName'', PStr []), (''name'', PStr ''Bob'')]) = ''WhatsApp: Bob''
   \<and> generate_thread_name ''!r:b'' ''whatsapp'' (PDict []) = ''WhatsApp Chat''
   \<and> generate_thread_name ''!room1:beeper.local'' ''signal'' (PDict []) = ''Chat (!room1:b...)''"
proof -
  have "thread_name_rule ''!r:b'' ''whatsapp'' [(''displayName'', PStr []), (''name'', PStr ''Bob'')] = ''WhatsApp: Bob''"
    by code_simp
  moreover have "thread_name_rule ''!r:b'' ''whatsapp'' [] = ''WhatsApp Chat''" by code_simp
  moreover have "thread_name_rule ''!room1:beeper.local'' ''signal'' [] = ''Chat (!room1:b...)''" by code_simp
  ultimately show ?thesis
    using generate_thread_name_rule [of "''!r:b''" "''whatsapp''" "[(''displayName'', PStr []), (''name'', PStr ''Bob'')]"]
      generate_thread_name_rule [of "''!r:b''" "''whatsapp''" "[]"] generate_thread_name_rule [of "''!room1:beeper.local''" "''signal''" "[]"]
    by simp
qed

section \<open>Sender metadata that is not a mapping\<close>

text \<open>
  Claim C9. Parsing the sender-metadata blob should never raise. The handler around it
  catches what \<open>json.loads\<close> raises; a blob that is valid JSON but no object (here a list)
  parses, the \<open>get\<close> on it raises AttributeError past that handler, and the reader's outer
  handler turns the whole call into an empty list with an error logged.
\<close>

theorem sender_blob_list_raises:
  "parse_sender (Some ''@alice:example.org'') (Json (PList [PStr ''Alice''])) = Inl AttributeError
   \<and> decode_row ''!room1:beeper.local'' (left_join sender_is_list base_message) = Inl AttributeError
   \<and> get_recent_messages (Inr sender_is_list) 50 fresh_listener
        = ([], fresh_listener\<lparr>log := [ErrorReadingDatabase AttributeError]\<rparr>)"
  by code_simp

section \<open>Replies\<close>

text \<open>
  Claim C10. Every message emitted by either reader comes from a stored row (same event id)
  whose \<open>inReplyToID\<close> it carries unchanged as \<open>reply_to_id\<close>, and its \<open>is_reply\<close> is true exactly
  when that value is neither null nor the empty string.
\<close>

theorem is_reply_iff_reply_to_truthy:
  assumes "msg \<in> set (fst (get_recent_messages st limit s))
           \<or> msg \<in> set (fst (get_thread_messages st tid limit s))"
  shows "\<exists>d x. st = Inr d \<and> x \<in> set (mx_room_messages d) \<and> event_id msg = m_eventID x
           \<and> reply_to_id msg = m_inReplyToID x
           \<and> is_reply msg = (m_inReplyToID x \<noteq> None \<and> m_inReplyToID x \<noteq> Some [])"
proof -
  from emitted_cases [OF assms] obtain d x t where h: "st = Inr d" "x \<in> set (mx_room_messages d)"
    "decode_row t (left_join d x) = Inr (Some msg)" by (elim exE conjE)
  from decode_row_SomeD(9) [OF h(3)] have a: "event_id msg = m_eventID x" by (simp add: m_left_join)
  from decode_row_SomeD(6) [OF h(3)] have b: "reply_to_id msg = m_inReplyToID x" by (simp add: m_left_join)
  from decode_row_SomeD(5) [OF h(3)] have c: "is_reply msg = (m_inReplyToID x \<noteq> None \<and> m_inReplyToID x \<noteq> Some [])"
    by (simp add: m_left_join truthy_opt_str)
  from h(1) h(2) a b c show ?thesis by (intro exI [of _ d] exI [of _ x] conjI)
qed

theorem is_reply_iff_reply_to_truthy_witness:
  "hd (fst (get_recent_messages (Inr (db_of [reply_message])) 50 fresh_listener))
      \<in> set (fst (get_recent_messages (Inr (db_of [reply_message])) 50 fresh_listener))
   \<and> is_reply (hd (fst (get_recent_messages (Inr (db_of [reply_message])) 50 fresh_listener)))
   \<and> reply_to_id (hd (fst (get_recent_messages (Inr (db_of [reply_message])) 50 fresh_listener)))
        = Some ''$event0''"
proof -
  let ?msg = "hd (fst (get_recent_messages (Inr (db_of [reply_message])) 50 fresh_listener))"
  have mem: "?msg \<in> set (fst (get_recent_messages (Inr (db_of [reply_message])) 50 fresh_listener))"
    by code_simp
  then have "?msg \<in> set (fst (get_recent_messages (Inr (db_of [reply_message])) 50 fresh_listener))
      \<or> ?msg \<in> set (fst (get_thread_messages (Inr (db_of [reply_message])) [] 50 fresh_listener))"
    by (rule disjI1)
  from is_reply_iff_reply_to_truthy [OF this] obtain d x where h: "Inr (db_of [reply_message]) = (Inr d :: store)"
    "x \<in> set (mx_room_messages d)" "reply_to_id ?msg = m_inReplyToID x"
    "is_reply ?msg = (m_inReplyToID x \<noteq> None \<and> m_inReplyToID x \<noteq> Some [])"
    by (elim exE conjE)
  from h(1) have "d = db_of [reply_message]" by simp
  with h(2) have "x = reply_message" by (simp add: db_of_def)
  then have "m_inReplyToID x = Some ''$event0''" by (simp add: reply_message_def)
  with h(3) h(4) have "is_reply ?msg" "reply_to_id ?msg = Some ''$event0''" by simp_all
  with mem show ?thesis by (intro conjI)
qed

section \<open>What every emitted message satisfies\<close>

text \<open>
  Claim C4 (as amended). Every message emitted by \<open>get_recent_messages\<close> or
  \<open>get_thread_messages\<close> has a text that is neither empty nor all whitespace, a message type
  among TEXT, MEDIA, FILE, LOCATION and STICKER, and a network that is one of whatsapp,
  telegram, linkedin, matrix, unknown, or else, when no sender-id rule matches, the
  platform name of the sender's account.
\<close>

theorem emitted_message_invariant:
  assumes "msg \<in> set (fst (get_recent_messages st limit s))
           \<or> msg \<in> set (fst (get_thread_messages st tid limit s))"
  shows "text msg \<noteq> [] \<and> strip (text msg) \<noteq> []
         \<and> message_type msg \<in> set allowed_types
         \<and> (network msg \<in> {''whatsapp'', ''telegram'', ''linkedin'', ''matrix'', ''unknown''}
            \<or> (\<exists>d. st = Inr d \<and> \<not> sender_rule_matches (sender_id msg)
                   \<and> platform_of_sender d (sender_id msg) = Some (network msg)))"
proof -
  from emitted_cases [OF assms] obtain d x t where h: "st = Inr d" "x \<in> set (mx_room_messages d)"
    "m_type x \<in> set allowed_types" "decode_row t (left_join d x) = Inr (Some msg)"
    by (elim exE conjE)
  from decode_row_SomeD(1) [OF h(4)] have a: "text msg \<noteq> [] \<and> strip (text msg) \<noteq> []" .
  from decode_row_SomeD(2) [OF h(4)] h(3) have b: "message_type msg \<in> set allowed_types"
    by (simp add: m_left_join)
  from decode_row_SomeD(10) [OF h(4)] have sid: "m_senderContactID x = sender_id msg"
    by (simp add: m_left_join)
  from decode_row_SomeD(4) [OF h(4)]
  have n: "network msg = determine_network (sender_id msg) (platform_of_sender d (sender_id msg))"
    by (simp add: m_left_join network_type_left_join sid)
  have c: "network msg \<in> {''whatsapp'', ''telegram'', ''linkedin'', ''matrix'', ''unknown''}
            \<or> (\<exists>d. st = Inr d \<and> \<not> sender_rule_matches (sender_id msg)
                   \<and> platform_of_sender d (sender_id msg) = Some (network msg))"
  proof (rule disjE [OF determine_network_cases
        [of "sender_id msg" "platform_of_sender d (sender_id msg)"]])
    assume "determine_network (sender_id msg) (platform_of_sender d (sender_id msg))
        \<in> {''whatsapp'', ''telegram'', ''linkedin'', ''matrix'', ''unknown''}"
    with n show ?thesis by simp
  next
    assume "\<not> sender_rule_matches (sender_id msg)
        \<and> platform_of_sender d (sender_id msg)
            = Some (determine_network (sender_id msg) (platform_of_sender d (sender_id msg)))"
    with n have "\<not> sender_rule_matches (sender_id msg)"
      "platform_of_sender d (sender_id msg) = Some (network msg)" by simp_all
    with h(1) have "\<exists>d. st = Inr d \<and> \<not> sender_rule_matches (sender_id msg)
        \<and> platform_of_sender d (sender_id msg) = Some (network msg)"
      by (intro exI [of _ d] conjI)
    then show ?thesis by (rule disjI2)
  qed
  from a b c show ?thesis by (intro conjI) simp_all
qed

theorem emitted_message_invariant_witness:
  "hd (fst (get_recent_messages (Inr discord_store) 50 fresh_listener))
      \<in> set (fst (get_recent_messages (Inr discord_store) 50 fresh_listener))
   \<and> strip (text (hd (fst (get_recent_messages (Inr discord_store) 50 fresh_listener)))) \<noteq> []
   \<and> message_type (hd (fst (get_recent_messages (Inr discord_store) 50 fresh_listener)))
        \<in> set allowed_types
   \<and> platform_of_sender discord_store
        (sender_id (hd (fst (get_recent_messages (Inr discord_store) 50 fresh_listener))))
        = Some (network (hd (fst (get_recent_messages (Inr discord_store) 50 fresh_listener))))"
proof -
  let ?msg = "hd (fst (get_recent_messages (Inr discord_store) 50 fresh_listener))"
  have mem: "?msg \<in> set (fst (get_recent_messages (Inr discord_store) 50 fresh_listener))"
    by code_simp
  then have "?msg \<in> set (fst (get_recent_messages (Inr discord_store) 50 fresh_listener))
      \<or> ?msg \<in> set (fst (get_thread_messages (Inr discord_store) [] 50 fresh_listener))"
    by (rule disjI1)
  note r = emitted_message_invariant [OF this]
  from r have a: "strip (text ?msg) \<noteq> []" by (elim conjE)
  from r have b: "message_type ?msg \<in> set allowed_types" by (elim conjE)
  have out: "network ?msg \<notin> {''whatsapp'', ''telegram'', ''linkedin'', ''matrix'', ''unknown''}"
    by code_simp
  from r have "network ?msg \<in> {''whatsapp'', ''telegram'', ''linkedin'', ''matrix'', ''unknown''}
      \<or> (\<exists>d. (Inr discord_store :: store) = Inr d \<and> \<not> sender_rule_matches (sender_id ?msg)
             \<and> platform_of_sender d (sender_id ?msg) = Some (network ?msg))"
    by (elim conjE)
  with out obtain d where d: "(Inr discord_store :: store) = Inr d"
    "platform_of_sender d (sender_id ?msg) = Some (network ?msg)"
    by (elim disjE exE conjE) simp_all
  from d(1) have "d = discord_store" by simp
  with d(2) have c: "platform_of_sender discord_store (sender_id ?msg) = Some (network ?msg)"
    by simp
  from mem a b c show ?thesis by (intro conjI)
qed

text \<open>
  Claim C4 as stated allows the five fixed networks only. A sender whose id matches no
  rule and whose account has the platform name \<open>discord\<close> is emitted with that network.
\<close>

theorem network_outside_enumeration_counterexample:
  "map network (fst (get_recent_messages (Inr discord_store) 50 fresh_listener)) = [''discord'']
   \<and> ''discord'' \<notin> {''whatsapp'', ''telegram'', ''linkedin'', ''matrix'', ''unknown''}"
  by code_simp

section \<open>Failures inside the readers\<close>

text \<open>
  Claim C6. A connection or query failure in \<open>get_recent_messages\<close> or \<open>get_thread_messages\<close>
  gives the empty list and one logged error line; and for every store, a call either logs
  nothing, or logs exactly one error line and returns the empty list. The readers return a
  list in every case: no exception reaches the caller.
\<close>

theorem reader_failures_are_caught:
  "get_recent_messages (Inl e) limit s = ([], s\<lparr>log := log s @ [ErrorReadingDatabase e]\<rparr>)
   \<and> get_thread_messages (Inl e) tid limit s = ([], s\<lparr>log := log s @ [ErrorReadingThread e]\<rparr>)
   \<and> (log (snd (get_recent_messages st limit s)) = log s
      \<or> (\<exists>e'. log (snd (get_recent_messages st limit s)) = log s @ [ErrorReadingDatabase e']
             \<and> fst (get_recent_messages st limit s) = []))
   \<and> (log (snd (get_thread_messages st tid limit s)) = log s
      \<or> (\<exists>e'. log (snd (get_thread_messages st tid limit s)) = log s @ [ErrorReadingThread e']
             \<and> fst (get_thread_messages st tid limit s) = []))"
proof (intro conjI)
  show "get_recent_messages (Inl e) limit s = ([], s\<lparr>log := log s @ [ErrorReadingDatabase e]\<rparr>)"
    by (rule get_recent_messages_Inl)
  show "get_thread_messages (Inl e) tid limit s = ([], s\<lparr>log := log s @ [ErrorReadingThread e]\<rparr>)"
    by (rule get_thread_messages_Inl)
  show "log (snd (get_recent_messages st limit s)) = log s
      \<or> (\<exists>e'. log (snd (get_recent_messages st limit s)) = log s @ [ErrorReadingDatabase e']
             \<and> fst (get_recent_messages st limit s) = [])"
  proof (cases st)
    case (Inl a)
    then show ?thesis by (simp add: get_recent_messages_Inl)
  next
    case (Inr d)
    obtain ex out wm where p: "process_rows (recent_query d (last_timestamp s) limit) [] (last_timestamp s) = (ex, out, wm)"
      by (rule prod_cases3)
    show ?thesis unfolding Inr get_recent_messages_Inr [OF p] by (cases ex) simp_all
  qed
  show "log (snd (get_thread_messages st tid limit s)) = log s
      \<or> (\<exists>e'. log (snd (get_thread_messages st tid limit s)) = log s @ [ErrorReadingThread e']
             \<and> fst (get_thread_messages st tid limit s) = [])"
  proof (cases st)
    case (Inl a)
    then show ?thesis by (simp add: get_thread_messages_Inl)
  next
    case (Inr d)
    show ?thesis unfolding Inr get_thread_messages_Inr
      by (cases "thread_rows tid (thread_query d tid limit) []") simp_all
  qed
qed

section \<open>The watermark\<close>

text \<open>
  Claim C3 (as amended). The watermark never decreases; after a \<open>get_recent_messages\<close> call
  it is the maximum of its previous value and the timestamps of the rows that yielded a
  Message in that call; so after any number of poll cycles it is the maximum of its
  initial value and the timestamps of all rows that yielded a Message. Rows skipped for
  empty or all-whitespace text do not advance it.
\<close>

theorem watermark_is_max_of_appended:
  "last_timestamp s \<le> last_timestamp (snd (get_recent_messages st limit s))
   \<and> last_timestamp (snd (get_recent_messages st limit s))
       = Max (insert (last_timestamp s) (timestamp ` set (appended st limit s)))
   \<and> last_timestamp (monitor_loop ticks s)
       = Max (insert (last_timestamp s) (timestamp ` set (appended_all ticks s)))"
proof (intro conjI)
  show "last_timestamp (snd (get_recent_messages st limit s))
       = Max (insert (last_timestamp s) (timestamp ` set (appended st limit s)))"
    by (rule watermark_one_call)
  then show "last_timestamp s \<le> last_timestamp (snd (get_recent_messages st limit s))"
    by simp
  show "last_timestamp (monitor_loop ticks s)
       = Max (insert (last_timestamp s) (timestamp ` set (appended_all ticks s)))"
    by (rule watermark_all)
qed

theorem watermark_is_max_of_appended_witness:
  "last_timestamp fresh_listener = 1700000000000
   \<and> map timestamp (appended_all [Inr blank_store, Inr (db_of [base_message])] fresh_listener)
        = [1700000001000]
   \<and> last_timestamp (monitor_loop [Inr blank_store, Inr (db_of [base_message])] fresh_listener)
        = 1700000001000"
proof -
  have a: "map timestamp (appended_all [Inr blank_store, Inr (db_of [base_message])] fresh_listener)
      = [1700000001000]" by code_simp
  then have "timestamp ` set (appended_all [Inr blank_store, Inr (db_of [base_message])] fresh_listener)
      = {1700000001000}" by (simp only: set_map [symmetric]) simp
  moreover have b: "last_timestamp fresh_listener = 1700000000000" by code_simp
  ultimately have "last_timestamp (monitor_loop [Inr blank_store, Inr (db_of [base_message])] fresh_listener)
      = 1700000001000"
    using watermark_is_max_of_appended
      [of fresh_listener "Inr blank_store" 50 "[Inr blank_store, Inr (db_of [base_message])]"]
    by simp
  with a b show ?thesis by (intro conjI)
qed

text \<open>
  Claim C3 as stated has the watermark advance over every returned row, skipped ones
  included. A poll that returns one row, with an all-whitespace body and a timestamp above
  the watermark, leaves the watermark where it was.
\<close>

theorem skipped_row_advances_watermark_counterexample:
  "map (\<lambda>r. m_timestamp (m r)) (recent_query blank_store (last_timestamp fresh_listener) 50)
      = [1700000002000]
   \<and> last_timestamp (snd (get_recent_messages (Inr blank_store) 50 fresh_listener))
      = 1700000000000"
  by code_simp

section \<open>Polling twice\<close>

text \<open>
  Claim C7. Two \<open>get_recent_messages\<close> calls on the same store, the second starting from
  the state the first left: the second returns the empty list, so nothing the first
  delivered is delivered again.
\<close>

theorem second_poll_is_empty:
  "fst (get_recent_messages st limit (snd (get_recent_messages st limit s))) = []"
proof (cases st)
  case (Inl e)
  then show ?thesis by (simp add: get_recent_messages_Inl)
next
  case (Inr d)
  let ?wm = "last_timestamp s"
  obtain e out wm' where p: "process_rows (recent_query d ?wm limit) [] ?wm = (e, out, wm')"
    by (rule prod_cases3)
  let ?s' = "snd (get_recent_messages (Inr d) limit s)"
  have wm': "last_timestamp ?s' = wm'" by (rule last_timestamp_after [OF p])
  from process_rows_first [OF p]
  have "\<exists>e2. process_rows (recent_query d wm' limit) [] wm' = (e2, [], wm')"
  proof
    assume "out = [] \<and> wm' = ?wm"
    with p show ?thesis by (intro exI [of _ e]) simp
  next
    assume "\<exists>pre r post. recent_query d ?wm limit = pre @ r # post
      \<and> (\<forall>x \<in> set pre. decode_row (m_roomID (m x)) x = Inr None)
      \<and> m_timestamp (m r) \<le> wm'"
    then obtain pre r post where h: "recent_query d ?wm limit = pre @ r # post"
      "\<forall>x \<in> set pre. decode_row (m_roomID (m x)) x = Inr None" "m_timestamp (m r) \<le> wm'"
      by (elim exE conjE)
    have le: "?wm \<le> wm'" by (rule process_rows_mono [OF p])
    have "\<forall>y \<in> set (recent_query d wm' limit). decode_row (m_roomID (m y)) y = Inr None"
    proof
      fix y assume "y \<in> set (recent_query d wm' limit)"
      with h(1) le h(3) have "y \<in> set pre" by (rule later_rows_in_prefix)
      with h(2) show "decode_row (m_roomID (m y)) y = Inr None" by (rule bspec)
    qed
    then have "process_rows (recent_query d wm' limit) [] wm' = (None, [], wm')"
      by (rule process_rows_skipped)
    then show ?thesis by (rule exI)
  qed
  then obtain e2 where p2: "process_rows (recent_query d (last_timestamp ?s') limit) [] (last_timestamp ?s') = (e2, [], wm')"
    unfolding wm' by (rule exE)
  have "fst (get_recent_messages (Inr d) limit ?s') = (case e2 of None \<Rightarrow> [] | Some ex \<Rightarrow> [])"
    by (rule fst_recent_after [OF p2])
  then have "fst (get_recent_messages (Inr d) limit ?s') = []" by (cases e2) simp_all
  with Inr show ?thesis by simp
qed

theorem second_poll_is_empty_witness:
  "map text (fst (get_recent_messages (Inr (db_of [base_message])) 50 fresh_listener)) = [''hello'']
   \<and> fst (get_recent_messages (Inr (db_of [base_message])) 50
            (snd (get_recent_messages (Inr (db_of [base_message])) 50 fresh_listener))) = []"
proof -
  have "map text (fst (get_recent_messages (Inr (db_of [base_message])) 50 fresh_listener)) = [''hello'']"
    by code_simp
  then show ?thesis
    using second_poll_is_empty [of "Inr (db_of [base_message])" 50 fresh_listener]
    by (intro conjI)
qed

end
